theory Spec2Isabelle
  imports Complex_Main "HOL-Library.Sublist"
begin

section \<open>FutureUniverseSelectionModel: a shallow embedding\<close>

text \<open>
  The source is \<^verbatim>\<open>Algorithm.Framework/Selection/FutureUniverseSelectionModel.py\<close>.
  Its methods are embedded as functions over an explicit state (\<open>world\<close>): the model
  object \<open>self\<close>, the host \<open>algorithm\<close>, and a ghost log of the effects in the order
  they happen. \<^verbatim>\<open>CreateUniverses\<close> contains \<^verbatim>\<open>yield\<close>, so it is a Python generator:
  the call returns a generator object and the body runs only under \<^verbatim>\<open>next\<close>. The
  generator is embedded as a state machine (\<open>gen_state\<close>, \<open>gen_next\<close>).
\<close>

subsection \<open>Errors\<close>

datatype error =
    ValueError string    \<comment> \<open>\<^verbatim>\<open>raise ValueError(msg)\<close>, lines 51 and 66\<close>
  | OverflowError        \<comment> \<open>\<^verbatim>\<open>datetime + timedelta\<close> out of range, line 46\<close>
  | SelectorError string \<comment> \<open>whatever the caller's selection rule raises\<close>

subsection \<open>Time\<close>

text \<open>
  A Python \<^verbatim>\<open>datetime\<close> is a count of microseconds since \<^verbatim>\<open>datetime.min\<close>
  (0001-01-01T00:00:00), at most \<^verbatim>\<open>datetime.max\<close> (9999-12-31T23:59:59.999999);
  a \<^verbatim>\<open>timedelta\<close> is a signed count of microseconds. Adding them raises
  \<^verbatim>\<open>OverflowError\<close> when the sum leaves the range.
\<close>

type_synonym datetime = int
type_synonym timedelta = int

definition datetime_min :: datetime where
  "datetime_min = 0"

definition datetime_max :: datetime where
  "datetime_max = 3652059 * 86400000000 - 1"

definition is_datetime :: "int \<Rightarrow> bool" where
  "is_datetime t = (datetime_min \<le> t \<and> t \<le> datetime_max)"

definition datetime_add :: "datetime \<Rightarrow> timedelta \<Rightarrow> error + datetime" where
  "datetime_add t d = (if is_datetime (t + d) then Inr (t + d) else Inl OverflowError)"

subsection \<open>Symbols\<close>

text \<open>
  Modelled from the spec: the classes \<^verbatim>\<open>Symbol\<close> and \<^verbatim>\<open>SecurityType\<close> come from
  \<^verbatim>\<open>AlgorithmImports\<close> and are not in the source file. The spec (section 3) gives an
  identifier the attributes asset class, market, raw value and canonical flag, equal
  iff all attributes match; canonicalising (section 4.2) builds an identifier of the
  same market and asset class whose raw value is the canonical form and whose flag
  is set (\<^verbatim>\<open>Future("ES", "CME")\<close> becomes \<^verbatim>\<open>Future("/ES", "CME")\<close>).
\<close>

datatype SecurityType = Base | Equity | Forex | Future | Cfd | Crypto

record Symbol =
  SecurityType :: SecurityType
  Market :: string       \<comment> \<open>\<^verbatim>\<open>symbol.ID.Market\<close>\<close>
  Value :: string        \<comment> \<open>\<^verbatim>\<open>symbol.Value\<close>\<close>
  IsCanonical :: bool    \<comment> \<open>\<^verbatim>\<open>symbol.IsCanonical()\<close>\<close>

text \<open>
  Modelled from the spec: \<^verbatim>\<open>Symbol.Create(ticker, securityType, market, alias)\<close>,
  called on line 71 with the alias \<^verbatim>\<open>"/" + symbol.Value\<close>. The new identifier carries
  the alias as its raw value.
\<close>

definition Symbol_Create :: "string \<Rightarrow> SecurityType \<Rightarrow> string \<Rightarrow> string \<Rightarrow> Symbol" where
  "Symbol_Create ticker securityType market alias =
     \<lparr>SecurityType = securityType, Market = market, Value = alias, IsCanonical = True\<rparr>"

subsection \<open>Settings, subscriptions, securities, universes\<close>

datatype Resolution = Tick | Second | Minute | Hour | Daily

record UniverseSettings =
  Resolution :: Resolution
  FillForward :: bool
  ExtendedMarketHours :: bool
  Leverage :: rat
  MinimumTimeInUniverse :: timedelta

datatype DataType = ZipEntryName

text \<open>
  Modelled from the spec: the subscription-configuration service is external. A
  configuration records the six arguments of the call on lines 95-100.
\<close>

record SubscriptionDataConfig =
  ConfigType :: DataType
  ConfigSymbol :: Symbol
  ConfigResolution :: Resolution
  ConfigFillForward :: bool
  ConfigExtendedMarketHours :: bool
  ConfigFlag :: bool     \<comment> \<open>the sixth argument, \<^verbatim>\<open>False\<close>\<close>

text \<open>
  Modelled from the spec: the filter specification handed to the hook is external; it
  stands for the contracts of a chain that a filter may narrow.
\<close>

type_synonym FutureFilterUniverse = "Symbol list"

text \<open>
  Modelled from the spec: the security registry is external. An entry of
  \<^verbatim>\<open>algorithm.Securities\<close> answers \<^verbatim>\<open>.Key\<close> (line 76) and is used as the chain
  security (\<^verbatim>\<open>securities[0]\<close>, lines 80-85), so an entry is the security with its key.
  A security is a mutable object: it is referred to by its position in the registry,
  which only grows.
\<close>

record Security =
  Key :: Symbol
  Subscription :: SubscriptionDataConfig
  SecurityLeverage :: rat
  Seed :: bool           \<comment> \<open>the fourth argument of \<^verbatim>\<open>CreateSecurity\<close>, \<^verbatim>\<open>False\<close>\<close>
  ContractFilter :: "(FutureFilterUniverse \<Rightarrow> FutureFilterUniverse) option"

type_synonym security_ref = nat

record FuturesChainUniverse =
  Future_ref :: security_ref
  Settings :: UniverseSettings

subsection \<open>The selection rule\<close>

text \<open>
  The caller's rule maps a time to an iterable. An iterable is the list of items it
  gives and the way it ends: \<open>None\<close> when it is exhausted, \<open>Some e\<close> when it raises
  \<open>e\<close> after the last item (a rule that raises when called gives no item). The
  rule is a function of the time alone, and its iterables are finite.
\<close>

type_synonym 'a iterable = "'a list \<times> error option"

subsection \<open>State\<close>

record FutureUniverseSelectionModel =
  nextRefreshTimeUtc :: datetime
  refreshInterval :: timedelta
  futureChainSymbolSelector :: "datetime \<Rightarrow> Symbol iterable"
  universeSettings :: "UniverseSettings option"

record QCAlgorithm =
  UtcTime :: datetime
  AlgorithmSettings :: UniverseSettings   \<comment> \<open>\<^verbatim>\<open>algorithm.UniverseSettings\<close>\<close>
  Securities :: "Security list"
  SubscriptionDataConfigs :: "SubscriptionDataConfig list"

datatype effect =
    ScheduleAdvanced datetime    \<comment> \<open>line 46\<close>
  | SelectorInvoked datetime     \<comment> \<open>line 49\<close>
  | ConfigAdded Symbol           \<comment> \<open>line 95\<close>
  | SecurityCreated Symbol       \<comment> \<open>line 102\<close>
  | FilterSet security_ref       \<comment> \<open>line 83\<close>

record world =
  self :: FutureUniverseSelectionModel
  algorithm :: QCAlgorithm
  effects :: "effect list"       \<comment> \<open>ghost: the effects so far, oldest first\<close>

definition record_effect :: "effect \<Rightarrow> world \<Rightarrow> world" where
  "record_effect e w = w\<lparr>effects := effects w @ [e]\<rparr>"

subsection \<open>Construction and the schedule read\<close>

definition init ::
  "timedelta \<Rightarrow> (datetime \<Rightarrow> Symbol iterable) \<Rightarrow> UniverseSettings option
     \<Rightarrow> FutureUniverseSelectionModel" where
  "init refreshInterval' futureChainSymbolSelector' universeSettings' =
     \<lparr>nextRefreshTimeUtc = datetime_min,
      refreshInterval = refreshInterval',
      futureChainSymbolSelector = futureChainSymbolSelector',
      universeSettings = universeSettings'\<rparr>"

definition GetNextRefreshTimeUtc :: "world \<Rightarrow> datetime \<times> world" where
  "GetNextRefreshTimeUtc w = (nextRefreshTimeUtc (self w), w)"

subsection \<open>The filter hook\<close>

definition Filter :: "FutureFilterUniverse \<Rightarrow> FutureFilterUniverse" where
  "Filter filter' = filter'"

text \<open>Modelled from the spec: \<^verbatim>\<open>SetFilter\<close> stores the hook on the security.\<close>

definition SetFilter ::
  "security_ref \<Rightarrow> (FutureFilterUniverse \<Rightarrow> FutureFilterUniverse) \<Rightarrow> world \<Rightarrow> world" where
  "SetFilter r f w =
     record_effect (FilterSet r)
       (w\<lparr>algorithm := (algorithm w)
            \<lparr>Securities := (Securities (algorithm w))
               [r := (Securities (algorithm w) ! r)\<lparr>ContractFilter := Some f\<rparr>]\<rparr>\<rparr>)"

subsection \<open>Provisioning\<close>

text \<open>
  Modelled from the spec: \<^verbatim>\<open>SubscriptionDataConfigService.Add\<close> makes a configuration
  from its arguments and keeps it.
\<close>

definition SubscriptionDataConfigService_Add ::
  "DataType \<Rightarrow> Symbol \<Rightarrow> Resolution \<Rightarrow> bool \<Rightarrow> bool \<Rightarrow> bool \<Rightarrow> world
     \<Rightarrow> SubscriptionDataConfig \<times> world" where
  "SubscriptionDataConfigService_Add ty symbol res ff emh flag w =
     (let config = \<lparr>ConfigType = ty, ConfigSymbol = symbol, ConfigResolution = res,
                     ConfigFillForward = ff, ConfigExtendedMarketHours = emh,
                     ConfigFlag = flag\<rparr>
      in (config,
          record_effect (ConfigAdded symbol)
            (w\<lparr>algorithm := (algorithm w)
                 \<lparr>SubscriptionDataConfigs :=
                    SubscriptionDataConfigs (algorithm w) @ [config]\<rparr>\<rparr>)))"

text \<open>
  Modelled from the spec: \<^verbatim>\<open>Securities.CreateSecurity\<close> materialises a new security
  in the registry, keyed by the symbol, with no filter yet, and returns it.
\<close>

definition Securities_CreateSecurity ::
  "Symbol \<Rightarrow> SubscriptionDataConfig \<Rightarrow> rat \<Rightarrow> bool \<Rightarrow> world \<Rightarrow> security_ref \<times> world" where
  "Securities_CreateSecurity symbol config leverage seed w =
     (let security = \<lparr>Key = symbol, Subscription = config, SecurityLeverage = leverage,
                       Seed = seed, ContractFilter = None\<rparr>
      in (length (Securities (algorithm w)),
          record_effect (SecurityCreated symbol)
            (w\<lparr>algorithm := (algorithm w)
                 \<lparr>Securities := Securities (algorithm w) @ [security]\<rparr>\<rparr>)))"

definition CreateFutureChainSecurity ::
  "world \<Rightarrow> Symbol \<Rightarrow> UniverseSettings \<Rightarrow> security_ref \<times> world" where
  "CreateFutureChainSecurity w symbol settings =
     (let (config, w1) =
            SubscriptionDataConfigService_Add ZipEntryName symbol (Resolution settings)
              (FillForward settings) (ExtendedMarketHours settings) False w
      in Securities_CreateSecurity symbol config (Leverage settings) False w1)"

subsection \<open>Canonicalisation and chain creation\<close>

text \<open>
  Lines 65-71 of \<^verbatim>\<open>CreateFutureChain\<close>: the asset-class check and the rewriting of a
  non-canonical symbol. The rest of the method uses only the symbol they produce.
\<close>

definition Canonicalize :: "Symbol \<Rightarrow> error + Symbol" where
  "Canonicalize symbol =
     (if SecurityType symbol \<noteq> Future
      then Inl (ValueError ''CreateFutureChain requires an future symbol.'')
      else let market = Market symbol
           in if \<not> IsCanonical symbol
              then Inr (Symbol_Create (Value symbol) Future market (''/'' @ Value symbol))
              else Inr symbol)"

text \<open>Line 76: the registry entries whose key is the symbol, in registry order.\<close>

definition securities_keyed :: "world \<Rightarrow> Symbol \<Rightarrow> security_ref list" where
  "securities_keyed w symbol =
     filter (\<lambda>r. Key (Securities (algorithm w) ! r) = symbol)
       [0 ..< length (Securities (algorithm w))]"

definition CreateFutureChain :: "world \<Rightarrow> Symbol \<Rightarrow> error + (FuturesChainUniverse \<times> world)" where
  "CreateFutureChain w symbol0 =
     (case Canonicalize symbol0 of
        Inl e \<Rightarrow> Inl e
      | Inr symbol \<Rightarrow>
          let settings = (case universeSettings (self w) of
                            Some s \<Rightarrow> s
                          | None \<Rightarrow> AlgorithmSettings (algorithm w));
              securities = securities_keyed w symbol;
              (futureChain, w1) =
                 (if length securities = 0
                  then CreateFutureChainSecurity w symbol settings
                  else (hd securities, w));
              w2 = SetFilter futureChain Filter w1
          in Inr (\<lparr>Future_ref = futureChain, Settings = settings\<rparr>, w2))"

subsection \<open>The generator\<close>

datatype gen_state =
    Created
      \<comment> \<open>returned by the call; no statement of the body has run\<close>
  | Suspended "Symbol set" "Symbol list" "error option"
      \<comment> \<open>at the \<^verbatim>\<open>yield\<close> of line 56: \<^verbatim>\<open>uniqueSymbols\<close> and the rest of the iterable\<close>
  | Finished
      \<comment> \<open>the body returned or raised\<close>

datatype 'a outcome = Yielded 'a | StopIteration | Raised error

text \<open>The \<^verbatim>\<open>for\<close> loop of lines 49-56, run up to the next \<^verbatim>\<open>yield\<close>.\<close>

fun loop ::
  "world \<Rightarrow> Symbol set \<Rightarrow> Symbol list \<Rightarrow> error option
     \<Rightarrow> FuturesChainUniverse outcome \<times> world \<times> gen_state" where
  "loop w uniqueSymbols [] None = (StopIteration, w, Finished)"
| "loop w uniqueSymbols [] (Some e) = (Raised e, w, Finished)"
| "loop w uniqueSymbols (futureSymbol # rest) fin =
     (if SecurityType futureSymbol \<noteq> Future
      then (Raised (ValueError ''futureChainSymbolSelector must return future symbols.''),
            w, Finished)
      else if futureSymbol \<notin> uniqueSymbols
      then (case CreateFutureChain w futureSymbol of
              Inl e \<Rightarrow> (Raised e, w, Finished)
            | Inr (u, w') \<Rightarrow>
                (Yielded u, w', Suspended (insert futureSymbol uniqueSymbols) rest fin))
      else loop w uniqueSymbols rest fin)"

text \<open>
  \<^verbatim>\<open>CreateUniverses(algorithm)\<close>: the call makes the generator and runs nothing.
\<close>

definition CreateUniverses :: "world \<Rightarrow> gen_state \<times> world" where
  "CreateUniverses w = (Created, w)"

text \<open>
  \<^verbatim>\<open>next(generator)\<close>. The first one runs line 46, line 48 and the call of the
  selection rule on line 49, then the loop; a later one resumes the loop.
\<close>

fun gen_next ::
  "world \<Rightarrow> gen_state \<Rightarrow> FuturesChainUniverse outcome \<times> world \<times> gen_state" where
  "gen_next w Created =
     (case datetime_add (UtcTime (algorithm w)) (refreshInterval (self w)) of
        Inl e \<Rightarrow> (Raised e, w, Finished)
      | Inr t \<Rightarrow>
          let w1 = record_effect (ScheduleAdvanced t)
                     (w\<lparr>self := (self w)\<lparr>nextRefreshTimeUtc := t\<rparr>\<rparr>);
              uniqueSymbols = {};
              w2 = record_effect (SelectorInvoked (UtcTime (algorithm w1))) w1;
              (items, fin) = futureChainSymbolSelector (self w2) (UtcTime (algorithm w2))
          in loop w2 uniqueSymbols items fin)"
| "gen_next w (Suspended uniqueSymbols rest fin) = loop w uniqueSymbols rest fin"
| "gen_next w Finished = (StopIteration, w, Finished)"

subsection \<open>The host's loop over the generator\<close>

text \<open>
  The host consumes the generator (\<^verbatim>\<open>for universe in model.CreateUniverses(algorithm)\<close>):
  it calls \<^verbatim>\<open>next\<close> until the generator stops or raises. \<open>drain\<close> gives the universes
  received, the error that ended the iteration if one did, and the final state. Each
  \<^verbatim>\<open>next\<close> that yields leaves a shorter rest of the iterable, so the loop ends.
\<close>

lemma loop_Yielded:
  "loop w uniq items fin = (Yielded u, w', g') \<Longrightarrow>
     \<exists>uniq' rest. g' = Suspended uniq' rest fin \<and> length rest < length items"
  by (induction w uniq items fin rule: loop.induct)
     (auto split: if_splits sum.splits prod.splits)

lemma gen_next_Yielded_Created:
  "gen_next w Created = (Yielded u, w', g') \<Longrightarrow>
     \<exists>uniq' rest fin. g' = Suspended uniq' rest fin \<and>
        length rest < length (fst (futureChainSymbolSelector (self w) (UtcTime (algorithm w))))"
  by (auto simp: record_effect_def Let_def split: sum.splits prod.splits dest!: loop_Yielded)

fun gen_size :: "world \<Rightarrow> gen_state \<Rightarrow> nat" where
  "gen_size w Created =
     Suc (length (fst (futureChainSymbolSelector (self w) (UtcTime (algorithm w)))))"
| "gen_size w (Suspended uniqueSymbols rest fin) = length rest"
| "gen_size w Finished = 0"

function drain ::
  "world \<Rightarrow> gen_state \<Rightarrow> FuturesChainUniverse list \<times> error option \<times> world" where
  "drain w g =
     (case gen_next w g of
        (Yielded u, w', g') \<Rightarrow>
          (case drain w' g' of (us, e, w'') \<Rightarrow> (u # us, e, w''))
      | (StopIteration, w', g') \<Rightarrow> ([], None, w')
      | (Raised e, w', g') \<Rightarrow> ([], Some e, w'))"
  by pat_completeness auto
termination
proof (relation "measure (\<lambda>(w, g). gen_size w g)")
  show "wf (measure (\<lambda>(w, g). gen_size w g))" by simp
next
  fix w g x1 x2 u w' g'
  assume "(x1, x2) = gen_next w g" "x1 = Yielded u" "(w', g') = x2"
  then have step: "gen_next w g = (Yielded u, w', g')" by simp
  show "((w', g'), (w, g)) \<in> measure (\<lambda>(w, g). gen_size w g)"
  proof (cases g)
    case Created
    with step gen_next_Yielded_Created show ?thesis by fastforce
  next
    case (Suspended uniq rest fin)
    with step loop_Yielded show ?thesis by fastforce
  next
    case Finished
    with step show ?thesis by simp
  qed
qed

declare drain.simps [simp del]

text \<open>
  One cycle as the host runs it: call \<^verbatim>\<open>CreateUniverses\<close> and consume the generator.
\<close>

definition consume :: "world \<Rightarrow> FuturesChainUniverse list \<times> error option \<times> world" where
  "consume w = (case CreateUniverses w of (g, w0) \<Rightarrow> drain w0 g)"

text \<open>The symbol of the chain security a universe refers to.\<close>

definition chain_symbol :: "world \<Rightarrow> FuturesChainUniverse \<Rightarrow> Symbol" where
  "chain_symbol w u = Key (Securities (algorithm w) ! Future_ref u)"

text \<open>
  The effects of provisioning a chain (lines 76-83), as opposed to the schedule
  update and the call of the selection rule.
\<close>

fun is_provisioning :: "effect \<Rightarrow> bool" where
  "is_provisioning (ConfigAdded _) = True"
| "is_provisioning (SecurityCreated _) = True"
| "is_provisioning (FilterSet _) = True"
| "is_provisioning (ScheduleAdvanced _) = False"
| "is_provisioning (SelectorInvoked _) = False"

text \<open>
  The state in which the first \<^verbatim>\<open>next\<close> enters the loop: line 46 has stored the
  time \<open>t\<close> and line 49 has called the selection rule.
\<close>

definition entered :: "world \<Rightarrow> datetime \<Rightarrow> world" where
  "entered w t =
     record_effect (SelectorInvoked (UtcTime (algorithm w)))
       (record_effect (ScheduleAdvanced t) (w\<lparr>self := (self w)\<lparr>nextRefreshTimeUtc := t\<rparr>\<rparr>))"

text \<open>
  The states a suspended generator can be in later: the host advances it, or changes
  the algorithm (the time, the registry) between two steps. The host does not touch
  the model.
\<close>

inductive follows :: "world \<times> gen_state \<Rightarrow> world \<times> gen_state \<Rightarrow> bool" for s where
  here: "follows s s"
| advanced: "follows s (w, g) \<Longrightarrow> gen_next w g = (r, w', g') \<Longrightarrow> follows s (w', g')"
| host: "follows s (w, g) \<Longrightarrow> follows s (w\<lparr>algorithm := a\<rparr>, g)"

text \<open>
  The identifiers of a list that are not in \<open>uniq\<close>, each once, in the order of their
  first occurrence: the identifiers that pass the guard of line 54.
\<close>

fun first_seen :: "Symbol set \<Rightarrow> Symbol list \<Rightarrow> Symbol list" where
  "first_seen uniq [] = []"
| "first_seen uniq (x # xs) =
     (if x \<in> uniq then first_seen uniq xs else x # first_seen (insert x uniq) xs)"

text \<open>
  The keys of a registry after the chains \<open>cs\<close> have been resolved in turn: a key is
  appended for each chain that the registry does not hold yet.
\<close>

fun provisioned :: "Symbol list \<Rightarrow> Symbol list \<Rightarrow> Symbol list" where
  "provisioned keys [] = keys"
| "provisioned keys (c # cs) = provisioned (if c \<in> set keys then keys else keys @ [c]) cs"

subsection \<open>Example inputs\<close>

definition ES :: Symbol where
  "ES = \<lparr>SecurityType = Future, Market = ''CME'', Value = ''ES'', IsCanonical = False\<rparr>"

definition ES_chain :: Symbol where
  "ES_chain = \<lparr>SecurityType = Future, Market = ''CME'', Value = ''/ES'', IsCanonical = True\<rparr>"

definition NQ :: Symbol where
  "NQ = \<lparr>SecurityType = Future, Market = ''CME'', Value = ''NQ'', IsCanonical = False\<rparr>"

definition NQ_chain :: Symbol where
  "NQ_chain = \<lparr>SecurityType = Future, Market = ''CME'', Value = ''/NQ'', IsCanonical = True\<rparr>"

definition AAPL :: Symbol where
  "AAPL = \<lparr>SecurityType = Equity, Market = ''USA'', Value = ''AAPL'', IsCanonical = False\<rparr>"



definition settings0 :: UniverseSettings where
  "settings0 = \<lparr>Resolution = Minute, FillForward = True, ExtendedMarketHours = False,
                 Leverage = 1, MinimumTimeInUniverse = 0\<rparr>"

text \<open>
  A freshly constructed model in a host with an empty registry, at engine time \<open>t\<close>.
\<close>

definition world0 :: "datetime \<Rightarrow> timedelta \<Rightarrow> Symbol iterable \<Rightarrow> world" where
  "world0 t interval selection =
     \<lparr>self = init interval (\<lambda>_. selection) None,
      algorithm = \<lparr>UtcTime = t, AlgorithmSettings = settings0, Securities = [],
                   SubscriptionDataConfigs = []\<rparr>,
      effects = []\<rparr>"



section \<open>Properties\<close>

subsection \<open>Canonicalisation\<close>

lemma Canonicalize_Future:
  "SecurityType x = Future \<Longrightarrow>
     Canonicalize x = Inr (if IsCanonical x then x
                           else \<lparr>SecurityType = Future, Market = Market x,
                                  Value = ''/'' @ Value x, IsCanonical = True\<rparr>)"
  by (simp add: Canonicalize_def Symbol_Create_def)

lemma Canonicalize_Inr:
  "Canonicalize x = Inr c \<Longrightarrow> SecurityType x = Future \<and> SecurityType c = Future \<and> IsCanonical c"
  by (auto simp: Canonicalize_def Symbol_Create_def Let_def split: if_splits)

lemma Canonicalize_not_Future:
  "SecurityType x \<noteq> Future \<Longrightarrow>
     Canonicalize x = Inl (ValueError ''CreateFutureChain requires an future symbol.'')"
  by (simp add: Canonicalize_def)

text \<open>
  C7. Canonicalising is idempotent on the identifiers of the configured asset class:
  a Future identifier has a canonical form, canonicalising that form gives it back,
  and an identifier that is already canonical is returned unchanged.
\<close>

theorem Canonicalize_idempotent:
  assumes "SecurityType x = Future"
  shows "\<exists>c. Canonicalize x = Inr c \<and> Canonicalize c = Inr c \<and> (IsCanonical x \<longrightarrow> c = x)"
proof -
  from assms obtain c where c: "Canonicalize x = Inr c"
    by (simp add: Canonicalize_Future)
  from Canonicalize_Inr [OF c] have "Canonicalize c = Inr c"
    by (simp add: Canonicalize_Future)
  moreover from assms c have "IsCanonical x \<longrightarrow> c = x"
    by (auto simp: Canonicalize_Future)
  ultimately show ?thesis using c by blast
qed

theorem Canonicalize_idempotent_witness:
  "SecurityType ES = Future \<and> Canonicalize ES = Inr ES_chain \<and>
   Canonicalize ES_chain = Inr ES_chain"
  using Canonicalize_idempotent [of ES]
  by (simp add: ES_def ES_chain_def Canonicalize_def Symbol_Create_def)

subsection \<open>Chain creation\<close>

lemma filter_upt_hd:
  "filter P [0 ..< n] \<noteq> [] \<Longrightarrow>
     hd (filter P [0 ..< n]) < n \<and> P (hd (filter P [0 ..< n])) \<and>
     (\<forall>j < hd (filter P [0 ..< n]). \<not> P j)"
proof (induction n)
  case 0
  then show ?case by simp
next
  case (Suc n)
  show ?case
  proof (cases "filter P [0 ..< n] = []")
    case True
    then have none: "\<forall>j < n. \<not> P j" by (simp add: filter_empty_conv)
    from True Suc.prems have Pn: "P n" by (simp split: if_splits)
    from True have "filter P [0 ..< Suc n] = (if P n then [n] else [])" by simp
    with Pn have eq: "hd (filter P [0 ..< Suc n]) = n" by simp
    show ?thesis unfolding eq using none Pn by blast
  next
    case False
    with Suc.IH have IH: "hd (filter P [0 ..< n]) < n \<and> P (hd (filter P [0 ..< n])) \<and>
     (\<forall>j < hd (filter P [0 ..< n]). \<not> P j)" by blast
    from False have eq: "hd (filter P [0 ..< Suc n]) = hd (filter P [0 ..< n])" by simp
    show ?thesis unfolding eq using IH less_SucI by blast
  qed
qed

lemma first_index_unique:
  "P r \<Longrightarrow> \<forall>j < r. \<not> P j \<Longrightarrow> P r' \<Longrightarrow> \<forall>j < r'. \<not> P j \<Longrightarrow> r = (r' :: nat)"
  by (meson linorder_neqE_nat)

lemma securities_keyed_Nil:
  "(securities_keyed w c = []) = (c \<notin> Key ` set (Securities (algorithm w)))"
proof -
  have "(securities_keyed w c = []) =
          (\<forall>r < length (Securities (algorithm w)). Key (Securities (algorithm w) ! r) \<noteq> c)"
    by (auto simp: securities_keyed_def filter_empty_conv)
  also have "\<dots> = (\<forall>s \<in> set (Securities (algorithm w)). Key s \<noteq> c)"
    by (simp add: all_set_conv_all_nth)
  finally show ?thesis by blast
qed

lemma securities_keyed_hd:
  assumes "securities_keyed w c \<noteq> []"
  shows "hd (securities_keyed w c) < length (Securities (algorithm w)) \<and>
         Key (Securities (algorithm w) ! hd (securities_keyed w c)) = c \<and>
         (\<forall>j < hd (securities_keyed w c). Key (Securities (algorithm w) ! j) \<noteq> c)"
  using filter_upt_hd [of "\<lambda>r. Key (Securities (algorithm w) ! r) = c"
                          "length (Securities (algorithm w))"] assms
  unfolding securities_keyed_def by blast

lemma map_Key_SetFilter:
  "r < length S \<Longrightarrow> map Key (S[r := (S ! r)\<lparr>ContractFilter := f\<rparr>]) = map Key S"
  by (simp add: map_update list_update_same_conv)

lemma CreateFutureChain_absent:
  assumes c: "Canonicalize x = Inr c"
    and absent: "c \<notin> Key ` set (Securities (algorithm w))"
    and run: "CreateFutureChain w x = Inr (u, w')"
  shows "Future_ref u = length (Securities (algorithm w))"
    and "map Key (Securities (algorithm w')) = map Key (Securities (algorithm w)) @ [c]"
    and "ContractFilter (Securities (algorithm w') ! Future_ref u) = Some Filter"
    and "length (SubscriptionDataConfigs (algorithm w')) =
           Suc (length (SubscriptionDataConfigs (algorithm w)))"
    and "effects w' = effects w @ [ConfigAdded c, SecurityCreated c, FilterSet (Future_ref u)]"
    and "self w' = self w"
    and "UtcTime (algorithm w') = UtcTime (algorithm w)"
proof -
  from absent have nil: "securities_keyed w c = []" by (simp add: securities_keyed_Nil)
  from run c nil have w': "w' = SetFilter (length (Securities (algorithm w))) Filter
      (snd (CreateFutureChainSecurity w c
         (case universeSettings (self w) of Some s \<Rightarrow> s
          | None \<Rightarrow> AlgorithmSettings (algorithm w))))"
    and u: "Future_ref u = length (Securities (algorithm w))"
    by (auto simp: CreateFutureChain_def CreateFutureChainSecurity_def
        Securities_CreateSecurity_def SubscriptionDataConfigService_Add_def
        record_effect_def Let_def split: prod.splits)
  show "Future_ref u = length (Securities (algorithm w))" by (rule u)
  show "map Key (Securities (algorithm w')) = map Key (Securities (algorithm w)) @ [c]"
    unfolding w' by (simp add: SetFilter_def CreateFutureChainSecurity_def
        Securities_CreateSecurity_def SubscriptionDataConfigService_Add_def
        record_effect_def Let_def)
  show "ContractFilter (Securities (algorithm w') ! Future_ref u) = Some Filter"
    unfolding w' u by (simp add: SetFilter_def CreateFutureChainSecurity_def
        Securities_CreateSecurity_def SubscriptionDataConfigService_Add_def
        record_effect_def Let_def)
  show "length (SubscriptionDataConfigs (algorithm w')) =
           Suc (length (SubscriptionDataConfigs (algorithm w)))"
    unfolding w' by (simp add: SetFilter_def CreateFutureChainSecurity_def
        Securities_CreateSecurity_def SubscriptionDataConfigService_Add_def
        record_effect_def Let_def)
  show "effects w' = effects w @ [ConfigAdded c, SecurityCreated c, FilterSet (Future_ref u)]"
    unfolding w' u by (simp add: SetFilter_def CreateFutureChainSecurity_def
        Securities_CreateSecurity_def SubscriptionDataConfigService_Add_def
        record_effect_def Let_def)
  show "self w' = self w"
    unfolding w' by (simp add: SetFilter_def CreateFutureChainSecurity_def
        Securities_CreateSecurity_def SubscriptionDataConfigService_Add_def
        record_effect_def Let_def)
  show "UtcTime (algorithm w') = UtcTime (algorithm w)"
    unfolding w' by (simp add: SetFilter_def CreateFutureChainSecurity_def
        Securities_CreateSecurity_def SubscriptionDataConfigService_Add_def
        record_effect_def Let_def)
qed

lemma CreateFutureChain_present:
  assumes c: "Canonicalize x = Inr c"
    and present: "c \<in> Key ` set (Securities (algorithm w))"
    and run: "CreateFutureChain w x = Inr (u, w')"
  shows "Future_ref u = hd (securities_keyed w c)"
    and "map Key (Securities (algorithm w')) = map Key (Securities (algorithm w))"
    and "ContractFilter (Securities (algorithm w') ! Future_ref u) = Some Filter"
    and "SubscriptionDataConfigs (algorithm w') = SubscriptionDataConfigs (algorithm w)"
    and "effects w' = effects w @ [FilterSet (Future_ref u)]"
    and "self w' = self w"
    and "UtcTime (algorithm w') = UtcTime (algorithm w)"
proof -
  from present have ne: "securities_keyed w c \<noteq> []" by (simp add: securities_keyed_Nil)
  from securities_keyed_hd [OF ne]
  have lt: "hd (securities_keyed w c) < length (Securities (algorithm w))" by blast
  from run c ne have w': "w' = SetFilter (hd (securities_keyed w c)) Filter w"
    and u: "Future_ref u = hd (securities_keyed w c)"
    by (auto simp: CreateFutureChain_def Let_def split: prod.splits)
  show "Future_ref u = hd (securities_keyed w c)" by (rule u)
  show "map Key (Securities (algorithm w')) = map Key (Securities (algorithm w))"
    unfolding w' using lt by (simp add: SetFilter_def record_effect_def map_Key_SetFilter)
  show "ContractFilter (Securities (algorithm w') ! Future_ref u) = Some Filter"
    unfolding w' u using lt by (simp add: SetFilter_def record_effect_def)
  show "SubscriptionDataConfigs (algorithm w') = SubscriptionDataConfigs (algorithm w)"
    unfolding w' by (simp add: SetFilter_def record_effect_def)
  show "effects w' = effects w @ [FilterSet (Future_ref u)]"
    unfolding w' u by (simp add: SetFilter_def record_effect_def)
  show "self w' = self w"
    unfolding w' by (simp add: SetFilter_def record_effect_def)
  show "UtcTime (algorithm w') = UtcTime (algorithm w)"
    unfolding w' by (simp add: SetFilter_def record_effect_def)
qed

lemma CreateFutureChain_Inr:
  "CreateFutureChain w x = Inr (u, w') \<Longrightarrow> \<exists>c. Canonicalize x = Inr c"
  by (cases "Canonicalize x") (simp_all add: CreateFutureChain_def)

lemma CreateFutureChain_total:
  "SecurityType x = Future \<Longrightarrow> \<exists>u w'. CreateFutureChain w x = Inr (u, w')"
  by (simp add: CreateFutureChain_def Canonicalize_Future Let_def split: prod.splits)

lemma CreateFutureChain_Inl:
  "SecurityType x \<noteq> Future \<Longrightarrow>
     CreateFutureChain w x = Inl (ValueError ''CreateFutureChain requires an future symbol.'')"
  by (simp add: CreateFutureChain_def Canonicalize_not_Future)

lemma CreateFutureChain_ref:
  assumes c: "Canonicalize x = Inr c" and run: "CreateFutureChain w x = Inr (u, w')"
  shows "Future_ref u < length (Securities (algorithm w')) \<and>
         Key (Securities (algorithm w') ! Future_ref u) = c \<and>
         (\<forall>j < Future_ref u. Key (Securities (algorithm w') ! j) \<noteq> c)"
proof (cases "c \<in> Key ` set (Securities (algorithm w))")
  case True
  then have ne: "securities_keyed w c \<noteq> []" by (simp add: securities_keyed_Nil)
  note hd = securities_keyed_hd [OF ne]
  note p = CreateFutureChain_present [OF c True run]
  from p(2) have len: "length (Securities (algorithm w')) = length (Securities (algorithm w))"
    by (metis length_map)
  have key: "Key (Securities (algorithm w') ! j) = Key (Securities (algorithm w) ! j)"
    if "j < length (Securities (algorithm w))" for j
    using that p(2) len by (metis nth_map)
  from hd p(1) len key show ?thesis by auto
next
  case False
  note a = CreateFutureChain_absent [OF c False run]
  from a(2) have len: "length (Securities (algorithm w')) = Suc (length (Securities (algorithm w)))"
    by (metis length_map length_append_singleton)
  have key: "Key (Securities (algorithm w') ! j) = (map Key (Securities (algorithm w)) @ [c]) ! j"
    if "j < Suc (length (Securities (algorithm w)))" for j
    using that a(2) len by (metis nth_map)
  have old: "Key (Securities (algorithm w') ! j) \<noteq> c" if "j < length (Securities (algorithm w))" for j
  proof -
    from that key have "Key (Securities (algorithm w') ! j) = Key (Securities (algorithm w) ! j)"
      by (simp add: nth_append)
    with that False show ?thesis by (metis image_eqI nth_mem)
  qed
  from key [of "length (Securities (algorithm w))"]
  have "Key (Securities (algorithm w') ! length (Securities (algorithm w))) = c"
    by (simp add: nth_append)
  with a(1) len old show ?thesis by simp
qed






subsection \<open>Frames of provisioning and of the loop\<close>

lemma CreateFutureChain_frame:
  assumes run: "CreateFutureChain w x = Inr (u, w')"
  shows "self w' = self w \<and> UtcTime (algorithm w') = UtcTime (algorithm w) \<and>
         (\<exists>es. effects w' = effects w @ es \<and> (\<forall>e \<in> set es. is_provisioning e)) \<and>
         prefix (map Key (Securities (algorithm w))) (map Key (Securities (algorithm w')))"
proof -
  from CreateFutureChain_Inr [OF run] obtain c where c: "Canonicalize x = Inr c" ..
  show ?thesis
  proof (cases "c \<in> Key ` set (Securities (algorithm w))")
    case True
    note p = CreateFutureChain_present [OF c True run]
    from p(5) have "\<exists>es. effects w' = effects w @ es \<and> (\<forall>e \<in> set es. is_provisioning e)"
      by simp
    with p(2,6,7) show ?thesis by simp
  next
    case False
    note a = CreateFutureChain_absent [OF c False run]
    from a(5) have "\<exists>es. effects w' = effects w @ es \<and> (\<forall>e \<in> set es. is_provisioning e)"
      by simp
    with a(2,6,7) show ?thesis by simp
  qed
qed

lemma loop_frame:
  "loop w uniq items fin = (r, w', g') \<Longrightarrow>
     self w' = self w \<and> UtcTime (algorithm w') = UtcTime (algorithm w) \<and>
     (\<exists>es. effects w' = effects w @ es \<and> (\<forall>e \<in> set es. is_provisioning e)) \<and>
     prefix (map Key (Securities (algorithm w))) (map Key (Securities (algorithm w')))"
proof (induction w uniq items fin rule: loop.induct)
  case (1 w uniqueSymbols)
  then show ?case by simp
next
  case (2 w uniqueSymbols e)
  then show ?case by simp
next
  case (3 w uniqueSymbols futureSymbol rest fin)
  show ?case
  proof (cases "SecurityType futureSymbol \<noteq> Future")
    case True
    with "3.prems" show ?thesis by simp
  next
    case future: False
    show ?thesis
    proof (cases "futureSymbol \<notin> uniqueSymbols")
      case True
      from future obtain u w1 where run: "CreateFutureChain w futureSymbol = Inr (u, w1)"
        using CreateFutureChain_total by blast
      with "3.prems" future True have "w' = w1" by simp
      with CreateFutureChain_frame [OF run] show ?thesis by simp
    next
      case False
      with "3.prems" future have "loop w uniqueSymbols rest fin = (r, w', g')" by simp
      with "3.IH" future False show ?thesis by simp
    qed
  qed
qed

lemma drain_Finished: "drain w Finished = ([], None, w)"
  by (simp add: drain.simps [of w Finished])

lemma drain_cong: "gen_next w g = gen_next v h \<Longrightarrow> drain w g = drain v h"
  by (simp add: drain.simps [of w g] drain.simps [of v h])

lemma drain_Suspended_Nil: "drain w (Suspended uniq [] fin) = ([], fin, w)"
  by (subst drain.simps) (cases fin; simp)

lemma drain_Suspended_not_Future:
  "SecurityType x \<noteq> Future \<Longrightarrow>
     drain w (Suspended uniq (x # xs) fin) =
       ([], Some (ValueError ''futureChainSymbolSelector must return future symbols.''), w)"
  by (simp add: drain.simps [of w "Suspended uniq (x # xs) fin"])

lemma drain_Suspended_seen:
  "SecurityType x = Future \<Longrightarrow> x \<in> uniq \<Longrightarrow>
     drain w (Suspended uniq (x # xs) fin) = drain w (Suspended uniq xs fin)"
  by (rule drain_cong) simp

lemma drain_Suspended_new:
  "SecurityType x = Future \<Longrightarrow> x \<notin> uniq \<Longrightarrow> CreateFutureChain w x = Inr (u, w1) \<Longrightarrow>
     drain w (Suspended uniq (x # xs) fin) =
       (case drain w1 (Suspended (insert x uniq) xs fin) of (us, e, w2) \<Rightarrow> (u # us, e, w2))"
  by (simp add: drain.simps [of w "Suspended uniq (x # xs) fin"])

lemma gen_next_Created_overflow:
  "datetime_add (UtcTime (algorithm w)) (refreshInterval (self w)) = Inl e \<Longrightarrow>
     gen_next w Created = (Raised e, w, Finished)"
  by simp

lemma gen_next_Created_entered:
  "datetime_add (UtcTime (algorithm w)) (refreshInterval (self w)) = Inr t \<Longrightarrow>
   futureChainSymbolSelector (self w) (UtcTime (algorithm w)) = (items, fin) \<Longrightarrow>
     gen_next w Created = loop (entered w t) {} items fin"
  by (simp add: entered_def record_effect_def Let_def)

lemma entered_simps:
  "nextRefreshTimeUtc (self (entered w t)) = t"
  "refreshInterval (self (entered w t)) = refreshInterval (self w)"
  "algorithm (entered w t) = algorithm w"
  "effects (entered w t) =
     effects w @ [ScheduleAdvanced t, SelectorInvoked (UtcTime (algorithm w))]"
  by (simp_all add: entered_def record_effect_def)

lemma drain_Created_overflow:
  "datetime_add (UtcTime (algorithm w)) (refreshInterval (self w)) = Inl e \<Longrightarrow>
     drain w Created = ([], Some e, w)"
  by (simp add: drain.simps [of w Created])

lemma drain_Created_entered:
  assumes "datetime_add (UtcTime (algorithm w)) (refreshInterval (self w)) = Inr t"
    and "futureChainSymbolSelector (self w) (UtcTime (algorithm w)) = (items, fin)"
  shows "drain w Created = drain (entered w t) (Suspended {} items fin)"
  by (rule drain_cong) (simp only: gen_next_Created_entered [OF assms] gen_next.simps(2))


lemma drain_frame:
  "drain w (Suspended uniq items fin) = (us, err, w') \<Longrightarrow>
     self w' = self w \<and> UtcTime (algorithm w') = UtcTime (algorithm w) \<and>
     (\<exists>es. effects w' = effects w @ es \<and> (\<forall>e \<in> set es. is_provisioning e)) \<and>
     prefix (map Key (Securities (algorithm w))) (map Key (Securities (algorithm w')))"
proof (induction items arbitrary: w uniq us)
  case Nil
  then show ?case by (simp add: drain_Suspended_Nil)
next
  case (Cons x xs)
  show ?case
  proof (cases "SecurityType x = Future")
    case False
    with Cons.prems show ?thesis by (simp add: drain_Suspended_not_Future)
  next
    case future: True
    show ?thesis
    proof (cases "x \<in> uniq")
      case True
      with Cons.prems future have "drain w (Suspended uniq xs fin) = (us, err, w')"
        by (simp add: drain_Suspended_seen)
      then show ?thesis by (rule Cons.IH)
    next
      case False
      from future obtain u w1 where run: "CreateFutureChain w x = Inr (u, w1)"
        using CreateFutureChain_total by blast
      obtain us1 where rest: "drain w1 (Suspended (insert x uniq) xs fin) = (us1, err, w')"
        using Cons.prems drain_Suspended_new [OF future False run, of xs fin]
        by (auto split: prod.splits)
      note f1 = CreateFutureChain_frame [OF run]
      note f2 = Cons.IH [OF rest]
      from f1 f2 obtain es1 es2 where
        "effects w1 = effects w @ es1" "\<forall>e \<in> set es1. is_provisioning e"
        "effects w' = effects w1 @ es2" "\<forall>e \<in> set es2. is_provisioning e"
        by blast
      then have "effects w' = effects w @ (es1 @ es2) \<and> (\<forall>e \<in> set (es1 @ es2). is_provisioning e)"
        by auto
      then have "\<exists>es. effects w' = effects w @ es \<and> (\<forall>e \<in> set es. is_provisioning e)"
        by blast
      moreover from f1 f2 have "prefix (map Key (Securities (algorithm w)))
          (map Key (Securities (algorithm w')))"
        using prefix_order.trans by blast
      ultimately show ?thesis using f1 f2 by simp
    qed
  qed
qed

text \<open>
  What the consumed loop gives: one universe for each distinct identifier, as the
  selection rule returned it, before the first identifier of another asset class.
\<close>

lemma drain_count:
  "drain w (Suspended uniq items fin) = (us, err, w') \<Longrightarrow>
     length us = card (set (takeWhile (\<lambda>x. SecurityType x = Future) items) - uniq) \<and>
     err = (if \<forall>x \<in> set items. SecurityType x = Future then fin
            else Some (ValueError ''futureChainSymbolSelector must return future symbols.''))"
proof (induction items arbitrary: w uniq us)
  case Nil
  then show ?case by (simp add: drain_Suspended_Nil)
next
  case (Cons x xs)
  show ?case
  proof (cases "SecurityType x = Future")
    case False
    with Cons.prems show ?thesis by (simp add: drain_Suspended_not_Future)
  next
    case future: True
    show ?thesis
    proof (cases "x \<in> uniq")
      case True
      with Cons.prems future have "drain w (Suspended uniq xs fin) = (us, err, w')"
        by (simp add: drain_Suspended_seen)
      from Cons.IH [OF this] future True show ?thesis
        by (simp add: insert_Diff_if)
    next
      case False
      from future obtain u w1 where run: "CreateFutureChain w x = Inr (u, w1)"
        using CreateFutureChain_total by blast
      obtain us1 where rest: "drain w1 (Suspended (insert x uniq) xs fin) = (us1, err, w')"
        and us: "us = u # us1"
        using Cons.prems drain_Suspended_new [OF future False run, of xs fin]
        by (auto split: prod.splits)
      let ?T = "set (takeWhile (\<lambda>x. SecurityType x = Future) xs)"
      have "insert x ?T - uniq = insert x (?T - insert x uniq)"
        using False by auto
      moreover have "x \<notin> ?T - insert x uniq" by simp
      moreover have "finite (?T - insert x uniq)" by simp
      ultimately have "card (insert x ?T - uniq) = Suc (card (?T - insert x uniq))"
        by (metis card_insert_disjoint)
      with Cons.IH [OF rest] future us show ?thesis by simp
    qed
  qed
qed

lemma loop_not_Created: "loop w uniq items fin = (r, w', g') \<Longrightarrow> g' \<noteq> Created"
  by (induction w uniq items fin rule: loop.induct)
     (auto split: if_splits sum.splits prod.splits)

lemma drain_frame_resumed:
  assumes "g \<noteq> Created" and "drain w g = (us, err, w')"
  shows "self w' = self w \<and> UtcTime (algorithm w') = UtcTime (algorithm w) \<and>
         (\<exists>es. effects w' = effects w @ es \<and> (\<forall>e \<in> set es. is_provisioning e)) \<and>
         prefix (map Key (Securities (algorithm w))) (map Key (Securities (algorithm w')))"
proof (cases g)
  case Created
  with assms show ?thesis by simp
next
  case (Suspended uniq items fin)
  with assms(2) show ?thesis using drain_frame by blast
next
  case Finished
  with assms(2) show ?thesis by (simp add: drain_Finished)
qed

lemma gen_next_Created_frame:
  assumes add: "datetime_add (UtcTime (algorithm w)) (refreshInterval (self w)) = Inr t"
    and step: "gen_next w Created = (r, w', g')"
  shows "nextRefreshTimeUtc (self w') = t \<and> g' \<noteq> Created \<and>
         UtcTime (algorithm w') = UtcTime (algorithm w) \<and>
         (\<exists>es. effects w' =
                 effects w @ ScheduleAdvanced t # SelectorInvoked (UtcTime (algorithm w)) # es \<and>
               (\<forall>e \<in> set es. is_provisioning e))"
proof -
  obtain items fin where
    sel: "futureChainSymbolSelector (self w) (UtcTime (algorithm w)) = (items, fin)"
    by (cases "futureChainSymbolSelector (self w) (UtcTime (algorithm w))")
  from step gen_next_Created_entered [OF add sel]
  have l: "loop (entered w t) {} items fin = (r, w', g')" by simp
  from loop_frame [OF l] loop_not_Created [OF l] show ?thesis
    by (auto simp: entered_simps)
qed

lemma drain_Created_frame:
  assumes add: "datetime_add (UtcTime (algorithm w)) (refreshInterval (self w)) = Inr t"
    and run: "drain w Created = (us, err, w')"
  shows "nextRefreshTimeUtc (self w') = t \<and>
         UtcTime (algorithm w') = UtcTime (algorithm w) \<and>
         (\<exists>es. effects w' =
                 effects w @ ScheduleAdvanced t # SelectorInvoked (UtcTime (algorithm w)) # es \<and>
               (\<forall>e \<in> set es. is_provisioning e))"
proof -
  obtain items fin where
    sel: "futureChainSymbolSelector (self w) (UtcTime (algorithm w)) = (items, fin)"
    by (cases "futureChainSymbolSelector (self w) (UtcTime (algorithm w))")
  from run drain_Created_entered [OF add sel]
  have d: "drain (entered w t) (Suspended {} items fin) = (us, err, w')" by simp
  from drain_frame [OF d] show ?thesis
    by (auto simp: entered_simps)
qed

lemma prefix_keys_nth:
  assumes "prefix (map Key S1) (map Key S2)" and "j < length S1"
  shows "j < length S2 \<and> Key (S2 ! j) = Key (S1 ! j)"
proof -
  from assms(1) obtain zs where zs: "map Key S2 = map Key S1 @ zs"
    by (auto simp: prefix_def)
  then have "length S2 = length S1 + length zs" by (metis length_map length_append)
  with assms(2) have lt: "j < length S2" by simp
  from zs assms(2) have "map Key S2 ! j = map Key S1 ! j" by (simp add: nth_append)
  with lt assms(2) show ?thesis by simp
qed

lemma CreateFutureChain_distinct:
  assumes c: "Canonicalize x = Inr c" and run: "CreateFutureChain w x = Inr (u, w')"
    and d: "distinct (map Key (Securities (algorithm w)))"
  shows "distinct (map Key (Securities (algorithm w')))"
proof (cases "c \<in> Key ` set (Securities (algorithm w))")
  case True
  from CreateFutureChain_present(2) [OF c True run] d show ?thesis by simp
next
  case False
  from CreateFutureChain_absent(2) [OF c False run] d False show ?thesis by simp
qed



lemma consume_drain: "consume w = drain w Created"
  by (simp add: consume_def CreateUniverses_def)

lemma drain_Created_count:
  assumes add: "datetime_add (UtcTime (algorithm w)) (refreshInterval (self w)) = Inr t"
    and sel: "futureChainSymbolSelector (self w) (UtcTime (algorithm w)) = (items, fin)"
    and run: "drain w Created = (us, err, w')"
  shows "length us = card (set (takeWhile (\<lambda>x. SecurityType x = Future) items)) \<and>
         err = (if \<forall>x \<in> set items. SecurityType x = Future then fin
                else Some (ValueError ''futureChainSymbolSelector must return future symbols.''))"
proof -
  from run drain_Created_entered [OF add sel]
  have "drain (entered w t) (Suspended {} items fin) = (us, err, w')" by simp
  from drain_count [OF this] show ?thesis by simp
qed

lemma gen_next_resumed_frame:
  assumes "g \<noteq> Created" and "gen_next w g = (r, w', g')"
  shows "g' \<noteq> Created \<and> self w' = self w \<and>
         (\<exists>es. effects w' = effects w @ es \<and> (\<forall>e \<in> set es. is_provisioning e))"
proof (cases g)
  case Created
  with assms show ?thesis by simp
next
  case (Suspended uniq items fin)
  with assms(2) have l: "loop w uniq items fin = (r, w', g')" by simp
  from loop_frame [OF l] loop_not_Created [OF l] show ?thesis by blast
next
  case Finished
  with assms(2) show ?thesis by auto
qed

lemma follows_frame:
  assumes "follows s s'" and "snd s \<noteq> Created"
  shows "snd s' \<noteq> Created \<and> self (fst s') = self (fst s) \<and>
         (\<exists>es. effects (fst s') = effects (fst s) @ es \<and> (\<forall>e \<in> set es. is_provisioning e))"
  using assms
proof (induction rule: follows.induct)
  case here
  then show ?case by simp
next
  case (advanced w g r w' g')
  from advanced.IH [OF advanced.prems] have g: "g \<noteq> Created" and s: "self w = self (fst s)"
    and e: "\<exists>es. effects w = effects (fst s) @ es \<and> (\<forall>e \<in> set es. is_provisioning e)"
    by simp_all
  from e obtain es1 where es1: "effects w = effects (fst s) @ es1" "\<forall>e \<in> set es1. is_provisioning e"
    by blast
  from gen_next_resumed_frame [OF g advanced.hyps(2)] obtain es2 where
    g': "g' \<noteq> Created" and s': "self w' = self w"
    and es2: "effects w' = effects w @ es2" "\<forall>e \<in> set es2. is_provisioning e" by blast
  from es1 es2 have "effects w' = effects (fst s) @ (es1 @ es2) \<and>
      (\<forall>e \<in> set (es1 @ es2). is_provisioning e)" by auto
  then have "\<exists>es. effects w' = effects (fst s) @ es \<and> (\<forall>e \<in> set es. is_provisioning e)"
    by blast
  with g' s' s show ?case by simp
next
  case (host w g a)
  from host.IH [OF host.prems] show ?case by simp
qed

lemma follows_Finished:
  assumes "follows s s'" and "snd s = Finished"
  shows "snd s' = Finished \<and> self (fst s') = self (fst s) \<and> effects (fst s') = effects (fst s)"
  using assms
proof (induction rule: follows.induct)
  case here
  then show ?case by simp
next
  case (advanced w g r w' g')
  from advanced.IH [OF advanced.prems] advanced.hyps(2) show ?case by auto
next
  case (host w g a)
  from host.IH [OF host.prems] show ?case by simp
qed

lemma follows_trans: "follows t u \<Longrightarrow> follows s t \<Longrightarrow> follows s u"
proof (induction rule: follows.induct)
  case here
  then show ?case .
next
  case (advanced w g r w' g')
  from follows.advanced [OF advanced.IH [OF advanced.prems] advanced.hyps(2)] show ?case .
next
  case (host w g a)
  from follows.host [OF host.IH [OF host.prems]] show ?case .
qed

lemma drain_follows: "drain w g = (us, err, w') \<Longrightarrow> \<exists>g'. follows (w, g) (w', g')"
proof (induction w g arbitrary: us rule: drain.induct)
  case (1 w g)
  obtain r w1 g1 where step: "gen_next w g = (r, w1, g1)"
    by (cases "gen_next w g") auto
  have f1: "follows (w, g) (w1, g1)"
    using follows.advanced [OF follows.here step] .
  show ?case
  proof (cases r)
    case (Yielded u)
    obtain us1 where d: "drain w1 g1 = (us1, err, w')"
      using "1.prems" step Yielded
      by (cases "drain w1 g1") (simp add: drain.simps [of w g])
    from "1.IH" [OF step [symmetric] Yielded refl d]
    obtain g' where "follows (w1, g1) (w', g')" by blast
    then show ?thesis using follows_trans [OF _ f1] by blast
  next
    case StopIteration
    with "1.prems" step have "w' = w1" by (simp add: drain.simps [of w g])
    with f1 show ?thesis by blast
  next
    case (Raised e)
    with "1.prems" step have "w' = w1" by (simp add: drain.simps [of w g])
    with f1 show ?thesis by blast
  qed
qed

lemma consume_follows:
  assumes "consume w = (us, err, w')"
  shows "\<exists>r w1 g1 g2. gen_next w Created = (r, w1, g1) \<and> follows (w1, g1) (w', g2)"
proof -
  obtain r w1 g1 where step: "gen_next w Created = (r, w1, g1)"
    by (cases "gen_next w Created") auto
  show ?thesis
  proof (cases r)
    case (Yielded u)
    with assms step obtain us1 where "drain w1 g1 = (us1, err, w')"
      by (cases "drain w1 g1") (simp add: consume_drain drain.simps [of w Created])
    from drain_follows [OF this] step show ?thesis by blast
  next
    case StopIteration
    with assms step have "w' = w1" by (simp add: consume_drain drain.simps [of w Created])
    with step follows.here show ?thesis by blast
  next
    case (Raised e)
    with assms step have "w' = w1" by (simp add: consume_drain drain.simps [of w Created])
    with step follows.here show ?thesis by blast
  qed
qed

lemma first_seen_set: "set (first_seen uniq xs) = set xs - uniq"
  by (induction xs arbitrary: uniq) auto

lemma first_seen_distinct: "distinct (first_seen uniq xs)"
  by (induction xs arbitrary: uniq) (auto simp: first_seen_set)

lemma CreateFutureChain_keys:
  assumes c: "Canonicalize x = Inr c" and run: "CreateFutureChain w x = Inr (u, w1)"
  shows "map Key (Securities (algorithm w1)) =
           (if c \<in> set (map Key (Securities (algorithm w))) then map Key (Securities (algorithm w))
            else map Key (Securities (algorithm w)) @ [c])"
proof (cases "c \<in> Key ` set (Securities (algorithm w))")
  case True
  from CreateFutureChain_present(2) [OF c True run] True show ?thesis by simp
next
  case False
  from CreateFutureChain_absent(2) [OF c False run] False show ?thesis by simp
qed

lemma drain_yields:
  "drain w (Suspended uniq items fin) = (us, err, w') \<Longrightarrow>
     map (\<lambda>u. Inr (chain_symbol w' u)) us =
       map Canonicalize (first_seen uniq (takeWhile (\<lambda>x. SecurityType x = Future) items)) \<and>
     map Key (Securities (algorithm w')) =
       provisioned (map Key (Securities (algorithm w))) (map (chain_symbol w') us) \<and>
     (\<forall>u \<in> set us. Future_ref u < length (Securities (algorithm w')))"
proof (induction items arbitrary: w uniq us)
  case Nil
  then show ?case by (simp add: drain_Suspended_Nil)
next
  case (Cons x xs)
  show ?case
  proof (cases "SecurityType x = Future")
    case False
    with Cons.prems show ?thesis by (auto simp: drain_Suspended_not_Future)
  next
    case future: True
    show ?thesis
    proof (cases "x \<in> uniq")
      case True
      with Cons.prems future have "drain w (Suspended uniq xs fin) = (us, err, w')"
        by (simp add: drain_Suspended_seen)
      from Cons.IH [OF this] future True show ?thesis by simp
    next
      case False
      from future obtain u w1 where run: "CreateFutureChain w x = Inr (u, w1)"
        using CreateFutureChain_total by blast
      obtain us1 where rest: "drain w1 (Suspended (insert x uniq) xs fin) = (us1, err, w')"
        and us: "us = u # us1"
        using Cons.prems drain_Suspended_new [OF future False run, of xs fin]
        by (auto split: prod.splits)
      from CreateFutureChain_Inr [OF run] obtain c where c: "Canonicalize x = Inr c" ..
      note r = CreateFutureChain_ref [OF c run]
      from drain_frame [OF rest]
      have pre: "prefix (map Key (Securities (algorithm w1))) (map Key (Securities (algorithm w')))"
        by blast
      from r have lt: "Future_ref u < length (Securities (algorithm w1))" by blast
      from prefix_keys_nth [OF pre lt] r
      have at: "Future_ref u < length (Securities (algorithm w'))" "chain_symbol w' u = c"
        by (simp_all add: chain_symbol_def)
      note IH = Cons.IH [OF rest]
      from IH CreateFutureChain_keys [OF c run] at(2)
      have keys: "map Key (Securities (algorithm w')) =
          provisioned (map Key (Securities (algorithm w))) (map (chain_symbol w') us)"
        by (simp add: us)
      from IH at c future False
      have "map (\<lambda>u. Inr (chain_symbol w' u)) us =
          map Canonicalize (first_seen uniq (takeWhile (\<lambda>x. SecurityType x = Future) (x # xs)))"
        by (simp add: us)
      moreover from IH at(1) have "\<forall>u \<in> set us. Future_ref u < length (Securities (algorithm w'))"
        by (simp add: us)
      ultimately show ?thesis using keys by blast
    qed
  qed
qed

subsection \<open>The schedule\<close>

text \<open>
  C9. A newly constructed model has \<open>nextRefreshTimeUtc = datetime.min\<close>, which no
  representable engine time precedes, so the first poll is due; and
  \<open>GetNextRefreshTimeUtc\<close> returns the stored value and leaves the state as it was.
\<close>

theorem initial_schedule_pure_read:
  assumes "self w = init interval selector settings"
  shows "GetNextRefreshTimeUtc w = (datetime_min, w) \<and>
         (\<forall>t. is_datetime t \<longrightarrow> fst (GetNextRefreshTimeUtc w) \<le> t) \<and>
         (\<forall>v. GetNextRefreshTimeUtc v = (nextRefreshTimeUtc (self v), v))"
  using assms by (simp add: GetNextRefreshTimeUtc_def init_def is_datetime_def)

theorem initial_schedule_pure_read_witness:
  "self (world0 1000 10 ([ES], None)) = init 10 (\<lambda>_. ([ES], None)) None \<and>
   GetNextRefreshTimeUtc (world0 1000 10 ([ES], None)) =
     (datetime_min, world0 1000 10 ([ES], None)) \<and>
   is_datetime 1000 \<and>
   fst (GetNextRefreshTimeUtc (world0 1000 10 ([ES], None))) \<le> 1000"
  using initial_schedule_pure_read [of "world0 1000 10 ([ES], None)" 10 "\<lambda>_. ([ES], None)" None]
  by (simp add: world0_def init_def is_datetime_def datetime_min_def datetime_max_def)

text \<open>
  C10. Calling \<open>CreateUniverses\<close> only makes the generator: the state, and so the
  schedule, the log of effects and the registry, is what it was, the selection rule
  has not been called and nothing has been created. The effects start when the
  generator is first advanced: that step stores the new refresh time and calls the
  selection rule.
\<close>

theorem CreateUniverses_lazy:
  assumes "CreateUniverses w = (g, w')"
  shows "w' = w \<and> g = Created \<and>
         fst (GetNextRefreshTimeUtc w') = fst (GetNextRefreshTimeUtc w) \<and>
         effects w' = effects w \<and> algorithm w' = algorithm w \<and>
         (\<forall>t r w'' g''.
            datetime_add (UtcTime (algorithm w)) (refreshInterval (self w)) = Inr t \<longrightarrow>
            gen_next w' g = (r, w'', g'') \<longrightarrow>
              fst (GetNextRefreshTimeUtc w'') = t \<and>
              (\<exists>es. effects w'' =
                 effects w @ ScheduleAdvanced t # SelectorInvoked (UtcTime (algorithm w)) # es))"
proof -
  from assms have eq: "w' = w" "g = Created" by (simp_all add: CreateUniverses_def)
  have "fst (GetNextRefreshTimeUtc w'') = t \<and>
        (\<exists>es. effects w'' =
           effects w @ ScheduleAdvanced t # SelectorInvoked (UtcTime (algorithm w)) # es)"
    if "datetime_add (UtcTime (algorithm w)) (refreshInterval (self w)) = Inr t"
      and "gen_next w Created = (r, w'', g'')" for t r w'' g''
    using gen_next_Created_frame [OF that] by (auto simp: GetNextRefreshTimeUtc_def)
  with eq show ?thesis by simp
qed

lemma world0_simps:
  "UtcTime (algorithm (world0 t i s)) = t"
  "refreshInterval (self (world0 t i s)) = i"
  "nextRefreshTimeUtc (self (world0 t i s)) = datetime_min"
  "futureChainSymbolSelector (self (world0 t i s)) t' = s"
  "Securities (algorithm (world0 t i s)) = []"
  "effects (world0 t i s) = []"
  by (simp_all add: world0_def init_def)

lemma datetime_add_example: "datetime_add 1000 10 = Inr 1010"
  by (simp add: datetime_add_def is_datetime_def datetime_min_def datetime_max_def)

theorem CreateUniverses_lazy_witness:
  "CreateUniverses (world0 1000 10 ([ES], None)) = (Created, world0 1000 10 ([ES], None)) \<and>
   fst (GetNextRefreshTimeUtc (snd (CreateUniverses (world0 1000 10 ([ES], None))))) =
     datetime_min \<and>
   fst (GetNextRefreshTimeUtc (fst (snd (gen_next (world0 1000 10 ([ES], None)) Created)))) =
     1010"
proof -
  let ?w = "world0 1000 10 ([ES], None)"
  have call: "CreateUniverses ?w = (Created, ?w)" by (simp add: CreateUniverses_def)
  have add: "datetime_add (UtcTime (algorithm ?w)) (refreshInterval (self ?w)) = Inr 1010"
    by (simp add: world0_simps datetime_add_example)
  have step: "gen_next ?w Created =
      (fst (gen_next ?w Created), fst (snd (gen_next ?w Created)),
       snd (snd (gen_next ?w Created)))" by simp
  from CreateUniverses_lazy [OF call] add step
  have "fst (GetNextRefreshTimeUtc (fst (snd (gen_next ?w Created)))) = 1010" by blast
  moreover have "fst (GetNextRefreshTimeUtc ?w) = datetime_min"
    by (simp add: GetNextRefreshTimeUtc_def world0_simps)
  ultimately show ?thesis using call by simp
qed

text \<open>
  When \<open>t + refreshInterval\<close> is not a datetime, line 46 raises and the cycle has no
  effect: the selection rule is not called.
\<close>

lemma overflow_cycle_has_no_effect:
  "datetime_add (UtcTime (algorithm w)) (refreshInterval (self w)) = Inl e \<Longrightarrow>
     consume w = ([], Some e, w)"
  by (simp add: consume_drain drain_Created_overflow)

text \<open>
  C5, as stated, fails: an invocation stores nothing when its result is never
  advanced, and nothing when the engine time plus the interval is not a datetime,
  although the generator is consumed.
\<close>

theorem invocation_without_update_counterexample:
  "nextRefreshTimeUtc (self (snd (CreateUniverses (world0 1000 10 ([ES], None))))) \<noteq>
     UtcTime (algorithm (world0 1000 10 ([ES], None))) +
     refreshInterval (self (world0 1000 10 ([ES], None))) \<and>
   effects (snd (CreateUniverses (world0 1000 10 ([ES], None)))) = [] \<and>
   fst (snd (consume (world0 datetime_max 1 ([ES], None)))) = Some OverflowError \<and>
   nextRefreshTimeUtc (self (snd (snd (consume (world0 datetime_max 1 ([ES], None)))))) \<noteq>
     datetime_max + 1 \<and>
   effects (snd (snd (consume (world0 datetime_max 1 ([ES], None))))) = []"
proof -
  have "datetime_add (UtcTime (algorithm (world0 datetime_max 1 ([ES], None))))
          (refreshInterval (self (world0 datetime_max 1 ([ES], None)))) = Inl OverflowError"
    by (simp add: world0_simps datetime_add_def is_datetime_def)
  from overflow_cycle_has_no_effect [OF this] show ?thesis
    by (simp add: CreateUniverses_def world0_simps datetime_min_def datetime_max_def)
qed

text \<open>
  C5, amended. An invocation of \<open>CreateUniverses\<close> has no effect until the generator is
  first advanced. That step adds the interval to the engine time \<open>t\<close> it finds. When
  \<open>t + refreshInterval\<close> is a datetime, the step stores it as the next refresh time
  before it calls the selection rule and before any provisioning: in every later
  state of the generator the log of effects is the schedule update, then the call
  of the selection rule, then provisioning only, and the stored time stands; when
  the rule raises, the step ends with that error after the update. When the sum is
  not a datetime, the step raises \<^verbatim>\<open>OverflowError\<close>, the schedule is not updated and
  the selection rule is never called.
\<close>

theorem schedule_advanced_before_selection:
  assumes call: "CreateUniverses w = (g, w0)"
    and step: "gen_next (w0\<lparr>algorithm := a\<rparr>) g = (r, w1, g1)"
    and later: "follows (w1, g1) (w2, g2)"
  shows "effects w0 = effects w \<and> self w0 = self w \<and>
         (if is_datetime (UtcTime a + refreshInterval (self w))
          then nextRefreshTimeUtc (self w2) = UtcTime a + refreshInterval (self w) \<and>
               (\<exists>es. effects w2 =
                    effects w @ ScheduleAdvanced (UtcTime a + refreshInterval (self w))
                      # SelectorInvoked (UtcTime a) # es \<and>
                  (\<forall>e \<in> set es. is_provisioning e)) \<and>
               (\<forall>e'. futureChainSymbolSelector (self w) (UtcTime a) = ([], Some e') \<longrightarrow>
                  r = Raised e' \<and> g1 = Finished)
          else r = Raised OverflowError \<and> g1 = Finished \<and> g2 = Finished \<and>
               self w2 = self w \<and> effects w2 = effects w)"
proof -
  from call have eq: "w0 = w" "g = Created" by (simp_all add: CreateUniverses_def)
  let ?v = "w\<lparr>algorithm := a\<rparr>"
  let ?t = "UtcTime a + refreshInterval (self w)"
  from step eq have s: "gen_next ?v Created = (r, w1, g1)" by simp
  show ?thesis
  proof (cases "is_datetime ?t")
    case True
    then have add: "datetime_add (UtcTime (algorithm ?v)) (refreshInterval (self ?v)) = Inr ?t"
      by (simp add: datetime_add_def)
    note f = gen_next_Created_frame [OF add s]
    from f have g1: "g1 \<noteq> Created" by blast
    from f obtain es1 where es1: "effects w1 =
        effects w @ ScheduleAdvanced ?t # SelectorInvoked (UtcTime a) # es1"
      "\<forall>e \<in> set es1. is_provisioning e" by auto
    from follows_frame [OF later] g1 obtain es2 where
      s2: "self w2 = self w1" and es2: "effects w2 = effects w1 @ es2"
      "\<forall>e \<in> set es2. is_provisioning e" by auto
    from es1 es2 have "effects w2 =
        effects w @ ScheduleAdvanced ?t # SelectorInvoked (UtcTime a) # (es1 @ es2) \<and>
        (\<forall>e \<in> set (es1 @ es2). is_provisioning e)" by auto
    then have log: "\<exists>es. effects w2 =
        effects w @ ScheduleAdvanced ?t # SelectorInvoked (UtcTime a) # es \<and>
        (\<forall>e \<in> set es. is_provisioning e)" by blast
    have raised: "r = Raised e' \<and> g1 = Finished"
      if sel: "futureChainSymbolSelector (self w) (UtcTime a) = ([], Some e')" for e'
    proof -
      from sel have "futureChainSymbolSelector (self ?v) (UtcTime (algorithm ?v)) = ([], Some e')"
        by simp
      from gen_next_Created_entered [OF add this] s show ?thesis by simp
    qed
    from f s2 log raised True eq show ?thesis by simp
  next
    case False
    then have add: "datetime_add (UtcTime (algorithm ?v)) (refreshInterval (self ?v)) =
        Inl OverflowError" by (simp add: datetime_add_def)
    from gen_next_Created_overflow [OF add] s
    have r: "r = Raised OverflowError" "w1 = ?v" "g1 = Finished" by simp_all
    from follows_Finished [OF later] r
    have "g2 = Finished" "self w2 = self w" "effects w2 = effects w" by simp_all
    with r False eq show ?thesis by simp
  qed
qed

theorem schedule_advanced_before_selection_witness:
  "is_datetime (1000 + 10) \<and>
   fst (gen_next (world0 1000 10 ([], Some (SelectorError ''boom''))) Created) =
     Raised (SelectorError ''boom'') \<and>
   nextRefreshTimeUtc (self (fst (snd (gen_next
     (world0 1000 10 ([], Some (SelectorError ''boom''))) Created)))) = 1010 \<and>
   take 2 (effects (fst (snd (gen_next
     (world0 1000 10 ([], Some (SelectorError ''boom''))) Created)))) =
     [ScheduleAdvanced 1010, SelectorInvoked 1000]"
proof -
  let ?w = "world0 1000 10 ([], Some (SelectorError ''boom''))"
  let ?s = "gen_next ?w Created"
  have call: "CreateUniverses ?w = (Created, ?w)" by (simp add: CreateUniverses_def)
  have same: "?w\<lparr>algorithm := algorithm ?w\<rparr> = ?w" by simp
  have step: "gen_next (?w\<lparr>algorithm := algorithm ?w\<rparr>) Created =
      (fst ?s, fst (snd ?s), snd (snd ?s))" by (simp only: same prod.collapse)
  have ok: "is_datetime (1000 + 10)"
    by (simp add: is_datetime_def datetime_min_def datetime_max_def)
  from schedule_advanced_before_selection [OF call step follows.here] ok
  show ?thesis by (auto simp: world0_simps)
qed

text \<open>
  C4, as stated, fails: after the call alone the generator has not run, and the
  schedule still holds \<open>datetime.min\<close>, not the engine time plus the interval. It
  fails too when that sum is not a datetime: the first \<^verbatim>\<open>next\<close> raises
  \<^verbatim>\<open>OverflowError\<close> and stores nothing.
\<close>

theorem schedule_after_call_counterexample:
  "fst (GetNextRefreshTimeUtc (snd (CreateUniverses (world0 1000 10 ([ES], None))))) \<noteq>
     UtcTime (algorithm (world0 1000 10 ([ES], None))) +
     refreshInterval (self (world0 1000 10 ([ES], None))) \<and>
   fst (gen_next (world0 datetime_max 1 ([ES], None)) Created) = Raised OverflowError \<and>
   fst (GetNextRefreshTimeUtc (fst (snd (gen_next (world0 datetime_max 1 ([ES], None))
     Created)))) \<noteq> datetime_max + 1"
  by (simp add: CreateUniverses_def GetNextRefreshTimeUtc_def world0_simps datetime_add_def
      is_datetime_def datetime_min_def datetime_max_def)

text \<open>
  C4, amended. A call of \<open>CreateUniverses\<close> leaves the schedule as it was. When the
  generator it returned is first advanced, at engine time \<open>t\<close> (the time of that step,
  which is the time of the call when the host consumes the generator at once) with
  \<open>t + refreshInterval\<close> a datetime, \<open>GetNextRefreshTimeUtc\<close> returns \<open>t + refreshInterval\<close>
  after that step and in every later state of the generator, whatever the selection
  rule does: succeed, repeat identifiers or raise.
\<close>

theorem schedule_after_first_next:
  assumes call: "CreateUniverses w = (g, w0)"
    and add: "datetime_add (UtcTime a) (refreshInterval (self w)) = Inr t"
    and step: "gen_next (w0\<lparr>algorithm := a\<rparr>) g = (r, w1, g1)"
    and later: "follows (w1, g1) (w2, g2)"
  shows "fst (GetNextRefreshTimeUtc w0) = fst (GetNextRefreshTimeUtc w) \<and>
         t = UtcTime a + refreshInterval (self w) \<and>
         fst (GetNextRefreshTimeUtc w1) = t \<and>
         fst (GetNextRefreshTimeUtc w2) = t"
proof -
  from call have eq: "w0 = w" "g = Created" by (simp_all add: CreateUniverses_def)
  let ?v = "w\<lparr>algorithm := a\<rparr>"
  from step eq have s: "gen_next ?v Created = (r, w1, g1)" by simp
  from add have add': "datetime_add (UtcTime (algorithm ?v)) (refreshInterval (self ?v)) = Inr t"
    by simp
  note f = gen_next_Created_frame [OF add' s]
  from f have g1: "g1 \<noteq> Created" by blast
  from follows_frame [OF later] g1 have "self w2 = self w1" by simp
  moreover from add have "t = UtcTime a + refreshInterval (self w)"
    by (simp add: datetime_add_def split: if_splits)
  ultimately show ?thesis using f eq by (simp add: GetNextRefreshTimeUtc_def)
qed

theorem schedule_after_first_next_witness:
  "\<exists>g w0 r w1 g1 r2 w2 g2.
     CreateUniverses (world0 1000 10 ([ES, ES], Some (SelectorError ''boom''))) = (g, w0) \<and>
     gen_next (w0\<lparr>algorithm := (algorithm w0)\<lparr>UtcTime := 2000\<rparr>\<rparr>) g = (r, w1, g1) \<and>
     gen_next (w1\<lparr>algorithm := (algorithm w1)\<lparr>UtcTime := 3000\<rparr>\<rparr>) g1 = (r2, w2, g2) \<and>
     follows (w1, g1) (w2, g2) \<and>
     fst (GetNextRefreshTimeUtc w0) = datetime_min \<and>
     fst (GetNextRefreshTimeUtc w1) = 2010 \<and>
     fst (GetNextRefreshTimeUtc w2) = 2010"
proof -
  let ?w = "world0 1000 10 ([ES, ES], Some (SelectorError ''boom''))"
  let ?a = "(algorithm ?w)\<lparr>UtcTime := 2000\<rparr>"
  have call: "CreateUniverses ?w = (Created, ?w)" by (simp add: CreateUniverses_def)
  have add: "datetime_add (UtcTime ?a) (refreshInterval (self ?w)) = Inr 2010"
    by (simp add: world0_simps datetime_add_def is_datetime_def datetime_min_def
        datetime_max_def)
  obtain r w1 g1 where step: "gen_next (?w\<lparr>algorithm := ?a\<rparr>) Created = (r, w1, g1)"
    by (cases "gen_next (?w\<lparr>algorithm := ?a\<rparr>) Created") auto
  obtain r2 w2 g2 where
    step2: "gen_next (w1\<lparr>algorithm := (algorithm w1)\<lparr>UtcTime := 3000\<rparr>\<rparr>) g1 = (r2, w2, g2)"
    by (cases "gen_next (w1\<lparr>algorithm := (algorithm w1)\<lparr>UtcTime := 3000\<rparr>\<rparr>) g1") auto
  have later: "follows (w1, g1) (w2, g2)"
    using follows.advanced [OF follows.host [OF follows.here] step2] .
  from schedule_after_first_next [OF call add step later]
  have "fst (GetNextRefreshTimeUtc ?w) = datetime_min"
    and "fst (GetNextRefreshTimeUtc w1) = 2010" and "fst (GetNextRefreshTimeUtc w2) = 2010"
    by (simp_all add: GetNextRefreshTimeUtc_def world0_simps)
  with call step step2 later show ?thesis
    by (intro exI [of _ Created] exI [of _ ?w] exI [of _ r] exI [of _ w1] exI [of _ g1]
          exI [of _ r2] exI [of _ w2] exI [of _ g2]) simp
qed

subsection \<open>Validation and deduplication\<close>

text \<open>
  C6, as stated, fails: the asset class is checked identifier by identifier inside
  the loop, so the universes of the identifiers before the offending one have been
  yielded, and their securities created, when the error is raised.
\<close>

theorem wrong_asset_class_counterexample:
  "length (fst (consume (world0 1000 10 ([ES_chain, AAPL], None)))) = 1 \<and>
   fst (snd (consume (world0 1000 10 ([ES_chain, AAPL], None)))) =
     Some (ValueError ''futureChainSymbolSelector must return future symbols.'') \<and>
   map Key (Securities (algorithm (snd (snd (consume
     (world0 1000 10 ([ES_chain, AAPL], None))))))) = [ES_chain]"
  by code_simp

text \<open>
  C6, amended. When the sequence the selection rule returns contains an identifier
  whose asset class is not Future, and the schedule update succeeds, consuming
  \<open>CreateUniverses\<close> ends with the \<^verbatim>\<open>ValueError\<close> of line 51 at the first such
  identifier. The universes received before the error are, in order, one for each
  distinct identifier before the offending one, and each refers to the security
  that the registry holds under the canonical form of its identifier. The registry
  at the end is the registry of the start with a security appended for each of
  those chains that it did not hold. Nothing is yielded or created for the
  offending identifier or a later one; when it is the first identifier, no
  universe is produced and the host is unchanged.
\<close>

theorem wrong_asset_class_rejected:
  assumes add: "datetime_add (UtcTime (algorithm w)) (refreshInterval (self w)) = Inr t"
    and sel: "futureChainSymbolSelector (self w) (UtcTime (algorithm w)) = (pre @ bad # post, fin)"
    and pre: "\<forall>x \<in> set pre. SecurityType x = Future"
    and bad: "SecurityType bad \<noteq> Future"
    and run: "consume w = (us, err, w')"
  shows "err = Some (ValueError ''futureChainSymbolSelector must return future symbols.'') \<and>
         map (\<lambda>u. Inr (chain_symbol w' u)) us = map Canonicalize (first_seen {} pre) \<and>
         distinct (first_seen {} pre) \<and> set (first_seen {} pre) = set pre \<and>
         length us = card (set pre) \<and>
         (\<forall>u \<in> set us. Future_ref u < length (Securities (algorithm w'))) \<and>
         map Key (Securities (algorithm w')) =
           provisioned (map Key (Securities (algorithm w))) (map (chain_symbol w') us) \<and>
         (pre = [] \<longrightarrow> us = [] \<and> algorithm w' = algorithm w)"
proof -
  from run drain_Created_entered [OF add sel]
  have d: "drain (entered w t) (Suspended {} (pre @ bad # post) fin) = (us, err, w')"
    by (simp add: consume_drain)
  from pre bad have tw: "takeWhile (\<lambda>x. SecurityType x = Future) (pre @ bad # post) = pre"
    by (simp add: takeWhile_append2)
  from drain_count [OF d] tw bad
  have err: "err = Some (ValueError ''futureChainSymbolSelector must return future symbols.'')"
    and len: "length us = card (set pre)" by auto
  from drain_yields [OF d] tw
  have y: "map (\<lambda>u. Inr (chain_symbol w' u)) us = map Canonicalize (first_seen {} pre)"
    "map Key (Securities (algorithm w')) =
       provisioned (map Key (Securities (algorithm w))) (map (chain_symbol w') us)"
    "\<forall>u \<in> set us. Future_ref u < length (Securities (algorithm w'))"
    by (simp_all add: entered_simps)
  have none: "algorithm w' = algorithm w" if "pre = []"
    using d that bad by (auto simp: drain_Suspended_not_Future entered_simps)
  from err len y none first_seen_distinct [of "{}" pre] first_seen_set [of "{}" pre]
  show ?thesis by auto
qed

theorem wrong_asset_class_rejected_witness:
  "fst (snd (consume (world0 1000 10 ([ES, NQ, ES, AAPL, NQ_chain], None)))) =
     Some (ValueError ''futureChainSymbolSelector must return future symbols.'') \<and>
   map (chain_symbol (snd (snd (consume (world0 1000 10 ([ES, NQ, ES, AAPL, NQ_chain], None))))))
       (fst (consume (world0 1000 10 ([ES, NQ, ES, AAPL, NQ_chain], None)))) =
     [ES_chain, NQ_chain] \<and>
   map Key (Securities (algorithm (snd (snd (consume
     (world0 1000 10 ([ES, NQ, ES, AAPL, NQ_chain], None))))))) = [ES_chain, NQ_chain]"
proof -
  let ?w = "world0 1000 10 ([ES, NQ, ES, AAPL, NQ_chain], None)"
  let ?us = "fst (consume ?w)" and ?w' = "snd (snd (consume ?w))"
  have add: "datetime_add (UtcTime (algorithm ?w)) (refreshInterval (self ?w)) = Inr 1010"
    by (simp add: world0_simps datetime_add_example)
  have sel: "futureChainSymbolSelector (self ?w) (UtcTime (algorithm ?w)) =
      ([ES, NQ, ES] @ AAPL # [NQ_chain], None)" by (simp add: world0_simps)
  have pre: "\<forall>x \<in> set [ES, NQ, ES]. SecurityType x = Future" by (simp add: ES_def NQ_def)
  have bad: "SecurityType AAPL \<noteq> Future" by (simp add: AAPL_def)
  have run: "consume ?w = (?us, fst (snd (consume ?w)), ?w')" by simp
  have seen: "map Canonicalize (first_seen {} [ES, NQ, ES]) = [Inr ES_chain, Inr NQ_chain]"
    by code_simp
  note t = wrong_asset_class_rejected [OF add sel pre bad run]
  note err = t [THEN conjunct1]
  note yielded = t [THEN conjunct2, THEN conjunct1]
  note keys = t [THEN conjunct2, THEN conjunct2, THEN conjunct2, THEN conjunct2,
      THEN conjunct2, THEN conjunct2, THEN conjunct1]
  have chains: "map (chain_symbol ?w') ?us = [ES_chain, NQ_chain]"
  proof -
    have "map (\<lambda>u. Inr (chain_symbol ?w' u)) ?us =
        [Inr ES_chain, Inr NQ_chain :: error + Symbol]"
      using yielded unfolding seen .
    then have "map (Inr :: Symbol \<Rightarrow> error + Symbol) (map (chain_symbol ?w') ?us) =
        map Inr [ES_chain, NQ_chain]"
      by (simp add: comp_def)
    then show ?thesis using inj_map_eq_map [OF inj_Inr] by blast
  qed
  have "map Key (Securities (algorithm ?w')) = provisioned [] [ES_chain, NQ_chain]"
    using keys unfolding chains world0_simps list.map .
  also have "\<dots> = [ES_chain, NQ_chain]" by code_simp
  finally have registry: "map Key (Securities (algorithm ?w')) = [ES_chain, NQ_chain]" .
  from err chains registry show ?thesis by blast
qed

text \<open>
  C1. The guard of line 54 compares the identifiers as the selection rule returned
  them, before line 71 canonicalises them. For the selection \<open>[ES, NQ, /ES]\<close>, where
  the concrete \<open>ES\<close> and the canonical \<open>/ES\<close> are different identifiers with the same
  canonical form, a cycle yields three universes, and the first and the third are
  for the same chain security.
\<close>

theorem duplicate_chain_for_equivalent_identifiers:
  "ES \<noteq> ES_chain \<and> Canonicalize ES = Inr ES_chain \<and> Canonicalize ES_chain = Inr ES_chain \<and>
   fst (snd (consume (world0 1000 10 ([ES, NQ, ES_chain], None)))) = None \<and>
   map Future_ref (fst (consume (world0 1000 10 ([ES, NQ, ES_chain], None)))) = [0, 1, 0] \<and>
   map (chain_symbol (snd (snd (consume (world0 1000 10 ([ES, NQ, ES_chain], None))))))
       (fst (consume (world0 1000 10 ([ES, NQ, ES_chain], None)))) =
     [ES_chain, NQ_chain, ES_chain]"
  by code_simp

text \<open>
  What the guard does give: one universe for each distinct identifier as returned.
\<close>

lemma one_universe_per_returned_identifier:
  assumes "datetime_add (UtcTime (algorithm w)) (refreshInterval (self w)) = Inr t"
    and "futureChainSymbolSelector (self w) (UtcTime (algorithm w)) = (items, None)"
    and "\<forall>x \<in> set items. SecurityType x = Future"
    and "consume w = (us, err, w')"
  shows "err = None \<and> length us = card (set items)"
proof -
  from assms(3) have "takeWhile (\<lambda>x. SecurityType x = Future) items = items"
    by simp
  with drain_Created_count [OF assms(1,2)] assms(3,4) show ?thesis
    by (simp add: consume_drain)
qed

subsection \<open>Provisioning\<close>

text \<open>
  C3. Resolving a canonical identifier is idempotent. If a chain was built for an
  identifier with canonical form \<open>c\<close>, then in any later state, one whose registry
  extends the registry left by that call, building the chain for an identifier with
  the same canonical form returns the same security, and adds no security and no
  subscription configuration: its only effect is to set the filter. The first call
  creates a security, appended under the key \<open>c\<close>, only when the registry holds none
  under that key, and otherwise creates nothing; so a registry with one security for
  each key stays so.
\<close>

theorem provisioning_idempotent:
  assumes cx: "Canonicalize x = Inr c" and cy: "Canonicalize y = Inr c"
    and run1: "CreateFutureChain w x = Inr (u1, w1)"
    and later: "prefix (map Key (Securities (algorithm w1))) (map Key (Securities (algorithm w2)))"
    and run2: "CreateFutureChain w2 y = Inr (u2, w3)"
  shows "Future_ref u2 = Future_ref u1 \<and>
         map Key (Securities (algorithm w3)) = map Key (Securities (algorithm w2)) \<and>
         SubscriptionDataConfigs (algorithm w3) = SubscriptionDataConfigs (algorithm w2) \<and>
         effects w3 = effects w2 @ [FilterSet (Future_ref u1)] \<and>
         (c \<in> Key ` set (Securities (algorithm w)) \<longrightarrow>
            map Key (Securities (algorithm w1)) = map Key (Securities (algorithm w)) \<and>
            SubscriptionDataConfigs (algorithm w1) = SubscriptionDataConfigs (algorithm w)) \<and>
         (c \<notin> Key ` set (Securities (algorithm w)) \<longrightarrow>
            map Key (Securities (algorithm w1)) = map Key (Securities (algorithm w)) @ [c]) \<and>
         (distinct (map Key (Securities (algorithm w))) \<longrightarrow>
            distinct (map Key (Securities (algorithm w1))))"
proof -
  let ?S1 = "Securities (algorithm w1)" and ?S2 = "Securities (algorithm w2)"
  note r1 = CreateFutureChain_ref [OF cx run1]
  from r1 have lt1: "Future_ref u1 < length ?S1" by blast
  from prefix_keys_nth [OF later lt1] r1
  have at2: "Future_ref u1 < length ?S2" "Key (?S2 ! Future_ref u1) = c" by simp_all
  then have present2: "c \<in> Key ` set ?S2" by (metis image_eqI nth_mem)
  note p2 = CreateFutureChain_present [OF cy present2 run2]
  from present2 have ne: "securities_keyed w2 c \<noteq> []" by (simp add: securities_keyed_Nil)
  note hd2 = securities_keyed_hd [OF ne]
  have before: "\<forall>j < Future_ref u1. Key (?S2 ! j) \<noteq> c"
  proof (intro allI impI)
    fix j assume j: "j < Future_ref u1"
    with lt1 have "j < length ?S1" by simp
    from prefix_keys_nth [OF later this] r1 j show "Key (?S2 ! j) \<noteq> c" by simp
  qed
  have "hd (securities_keyed w2 c) = Future_ref u1"
    using first_index_unique [of "\<lambda>j. Key (?S2 ! j) = c" "hd (securities_keyed w2 c)" "Future_ref u1"]
      hd2 at2(2) before by blast
  with p2(1) have same: "Future_ref u2 = Future_ref u1" by simp
  have first_present: "map Key (Securities (algorithm w1)) = map Key (Securities (algorithm w)) \<and>
      SubscriptionDataConfigs (algorithm w1) = SubscriptionDataConfigs (algorithm w)"
    if "c \<in> Key ` set (Securities (algorithm w))"
    using CreateFutureChain_present(2,4) [OF cx that run1] by simp
  have first_absent: "map Key (Securities (algorithm w1)) = map Key (Securities (algorithm w)) @ [c]"
    if "c \<notin> Key ` set (Securities (algorithm w))"
    using CreateFutureChain_absent(2) [OF cx that run1] by simp
  have dist: "distinct (map Key (Securities (algorithm w1)))"
    if "distinct (map Key (Securities (algorithm w)))"
    using CreateFutureChain_distinct [OF cx run1 that] .
  from same p2(2,4,5) first_present first_absent dist show ?thesis by simp
qed

theorem provisioning_idempotent_witness:
  "\<exists>u1 w1 un w2 u2 w3.
     CreateFutureChain (world0 1000 10 ([], None)) ES = Inr (u1, w1) \<and>
     CreateFutureChain w1 NQ = Inr (un, w2) \<and>
     CreateFutureChain w2 ES_chain = Inr (u2, w3) \<and>
     Canonicalize ES = Inr ES_chain \<and> Canonicalize ES_chain = Inr ES_chain \<and>
     prefix (map Key (Securities (algorithm w1))) (map Key (Securities (algorithm w2))) \<and>
     Future_ref u2 = Future_ref u1 \<and>
     map Key (Securities (algorithm w1)) = [ES_chain] \<and>
     map Key (Securities (algorithm w3)) = map Key (Securities (algorithm w2)) \<and>
     SubscriptionDataConfigs (algorithm w3) = SubscriptionDataConfigs (algorithm w2)"
proof -
  let ?w = "world0 1000 10 ([], None)"
  have cx: "Canonicalize ES = Inr ES_chain" and cy: "Canonicalize ES_chain = Inr ES_chain"
    by (simp_all add: Canonicalize_def Symbol_Create_def ES_def ES_chain_def)
  have f: "SecurityType ES = Future" "SecurityType NQ = Future" "SecurityType ES_chain = Future"
    by (simp_all add: ES_def NQ_def ES_chain_def)
  obtain u1 w1 where r1: "CreateFutureChain ?w ES = Inr (u1, w1)"
    using CreateFutureChain_total [OF f(1)] by blast
  obtain un w2 where rn: "CreateFutureChain w1 NQ = Inr (un, w2)"
    using CreateFutureChain_total [OF f(2)] by blast
  obtain u2 w3 where r2: "CreateFutureChain w2 ES_chain = Inr (u2, w3)"
    using CreateFutureChain_total [OF f(3)] by blast
  from CreateFutureChain_frame [OF rn]
  have later: "prefix (map Key (Securities (algorithm w1))) (map Key (Securities (algorithm w2)))"
    by blast
  have absent: "ES_chain \<notin> Key ` set (Securities (algorithm ?w))"
    by (simp add: world0_simps)
  from provisioning_idempotent [OF cx cy r1 later r2] absent
  have "Future_ref u2 = Future_ref u1"
    and "map Key (Securities (algorithm w1)) = [ES_chain]"
    and "map Key (Securities (algorithm w3)) = map Key (Securities (algorithm w2))"
    and "SubscriptionDataConfigs (algorithm w3) = SubscriptionDataConfigs (algorithm w2)"
    by (simp_all add: world0_simps)
  with r1 rn r2 cx cy later show ?thesis
    by (intro exI [of _ u1] exI [of _ w1] exI [of _ un] exI [of _ w2] exI [of _ u2]
          exI [of _ w3]) simp
qed

text \<open>
  The scenario of the spec, evaluated: two cycles with the selection \<open>[ES]\<close> and an
  interval of one day. Each yields one universe, for the security at position 0 of
  the registry, which holds one security, keyed \<open>/ES\<close>, after both.
\<close>

lemma second_cycle_reuses_security:
  "(case consume (world0 1000 86400000000 ([ES], None)) of
      (us1, err1, w1) \<Rightarrow>
        (case consume w1 of
           (us2, err2, w2) \<Rightarrow>
             map Future_ref us1 = [0] \<and> map Future_ref us2 = [0] \<and>
             err1 = None \<and> err2 = None \<and>
             map Key (Securities (algorithm w1)) = [ES_chain] \<and>
             map Key (Securities (algorithm w2)) = [ES_chain] \<and>
             length (SubscriptionDataConfigs (algorithm w2)) = 1 \<and>
             nextRefreshTimeUtc (self w2) = 86400001000))"
  by code_simp

subsection \<open>The filter hook\<close>



end
